theory Spec2Isabelle
  imports Complex_Main "HOL-Library.Char_ord" "HOL-Library.List_Lexorder" "HOL-Library.Sublist"
begin

section \<open>Python values as the extractor sees them\<close>

text \<open>
  Every value the extractor handles comes out of \<^verbatim>\<open>response.json()\<close>: None, a bool, an
  int, a float, a str, a list or a dict with str keys. A dict is an association list in
  insertion order, read with \<open>map_of\<close> (the keys of a parsed JSON object are distinct).
  A float is a rational here (the extractor only tests numbers for truth); strings are
  \<open>string\<close>, and the case mappings below are the ASCII part of Python's.
\<close>

datatype json =
    JNull
  | JBool bool
  | JInt int
  | JFloat rat
  | JStr string
  | JArr "json list"
  | JObj "(string \<times> json) list"

type_synonym pydict = "(string \<times> json) list"

text \<open>The exceptions the modelled code can raise, by class.\<close>

datatype py_exception =
    AttributeError
  | TypeError
  | KeyError
  | ValueError string
  | RequestException string
  | GenericException string
  | KeyboardInterrupt

text \<open>Truth value testing: \<^verbatim>\<open>if x:\<close>, \<^verbatim>\<open>not x\<close>.\<close>

fun truthy :: "json \<Rightarrow> bool" where
  "truthy JNull = False"
| "truthy (JBool b) = b"
| "truthy (JInt n) = (n \<noteq> 0)"
| "truthy (JFloat r) = (r \<noteq> 0)"
| "truthy (JStr s) = (s \<noteq> [])"
| "truthy (JArr xs) = (xs \<noteq> [])"
| "truthy (JObj kv) = (kv \<noteq> [])"

text \<open>\<^verbatim>\<open>d.get(k, default)\<close> on a dict; \<^verbatim>\<open>d.get(k)\<close> is \<open>dict_get d k JNull\<close>.\<close>

definition dict_get :: "pydict \<Rightarrow> string \<Rightarrow> json \<Rightarrow> json" where
  "dict_get d k dflt = (case map_of d k of None \<Rightarrow> dflt | Some v \<Rightarrow> v)"

text \<open>\<^verbatim>\<open>x.get(k, default)\<close> on any value: only a dict has the method.\<close>

fun attr_get :: "json \<Rightarrow> string \<Rightarrow> json \<Rightarrow> py_exception + json" where
  "attr_get (JObj d) k dflt = Inr (dict_get d k dflt)"
| "attr_get _ k dflt = Inl AttributeError"

text \<open>\<^verbatim>\<open>x[k]\<close> with a str key: KeyError on a dict without the key, TypeError elsewhere.\<close>

fun subscript :: "json \<Rightarrow> string \<Rightarrow> py_exception + json" where
  "subscript (JObj d) k = (case map_of d k of None \<Rightarrow> Inl KeyError | Some v \<Rightarrow> Inr v)"
| "subscript _ k = Inl TypeError"

text \<open>Iteration (\<^verbatim>\<open>for x in v\<close>, \<^verbatim>\<open>list.extend(v)\<close>): a list gives its elements, a str
  its characters as one-character strs, a dict its keys; anything else is not iterable.\<close>

fun py_iter :: "json \<Rightarrow> py_exception + json list" where
  "py_iter (JArr xs) = Inr xs"
| "py_iter (JStr s) = Inr (map (\<lambda>c. JStr [c]) s)"
| "py_iter (JObj kv) = Inr (map (\<lambda>(k, v). JStr k) kv)"
| "py_iter _ = Inl TypeError"

text \<open>\<^verbatim>\<open>str.lower()\<close> and \<^verbatim>\<open>str.upper()\<close> on ASCII letters.\<close>

definition lower_char :: "char \<Rightarrow> char" where
  "lower_char c =
     (if CHR ''A'' \<le> c \<and> c \<le> CHR ''Z'' then char_of (of_char c + (32::nat)) else c)"

definition upper_char :: "char \<Rightarrow> char" where
  "upper_char c =
     (if CHR ''a'' \<le> c \<and> c \<le> CHR ''z'' then char_of (of_char c - (32::nat)) else c)"

definition lower :: "string \<Rightarrow> string" where
  "lower s = map lower_char s"

definition upper :: "string \<Rightarrow> string" where
  "upper s = map upper_char s"

text \<open>\<^verbatim>\<open>x.lower()\<close> and \<^verbatim>\<open>x.upper()\<close> on any value: only a str has the methods.\<close>

fun str_lower :: "json \<Rightarrow> py_exception + string" where
  "str_lower (JStr s) = Inr (lower s)"
| "str_lower _ = Inl AttributeError"

fun str_upper :: "json \<Rightarrow> py_exception + string" where
  "str_upper (JStr s) = Inr (upper s)"
| "str_upper _ = Inl AttributeError"

section \<open>Pattern Filter\<close>

text \<open>
  \<^verbatim>\<open>return [pattern for pattern in patterns if pattern.get("enabled", False)]\<close>
  over \<^verbatim>\<open>List[Dict[str, Any]]\<close>.
\<close>

definition filter_enabled_patterns :: "pydict list \<Rightarrow> pydict list" where
  "filter_enabled_patterns patterns =
     [pattern \<leftarrow> patterns. truthy (dict_get pattern ''enabled'' (JBool False))]"

text \<open>The data model's reading of "the \<open>enabled\<close> attribute is truthy": the field is
  there and its value tests true.\<close>

definition enabled_truthy :: "pydict \<Rightarrow> bool" where
  "enabled_truthy p = (case map_of p ''enabled'' of None \<Rightarrow> False | Some v \<Rightarrow> truthy v)"

definition pattern_on :: pydict where
  "pattern_on = [(''id'', JStr ''a''), (''enabled'', JBool True)]"

definition pattern_off :: pydict where
  "pattern_off = [(''id'', JStr ''b''), (''enabled'', JBool False)]"

definition pattern_bare :: pydict where
  "pattern_bare = [(''id'', JStr ''c'')]"

section \<open>Language Extractor\<close>

text \<open>The generator \<^verbatim>\<open>lang.lower() for lang in xs\<close>, consumed left to right: the first
  element that is not a str raises.\<close>

fun lower_all :: "json list \<Rightarrow> py_exception + string list" where
  "lower_all [] = Inr []"
| "lower_all (lang # langs) =
     (case str_lower lang of
        Inl e \<Rightarrow> Inl e
      | Inr s \<Rightarrow> (case lower_all langs of Inl e \<Rightarrow> Inl e | Inr ss \<Rightarrow> Inr (s # ss)))"



section \<open>Rule identifiers\<close>

text \<open>\<^verbatim>\<open>c in x\<close> for a one-character str \<open>c\<close>: a substring test on a str, an element test
  on a list (only the str \<open>c\<close> equals it), a key test on a dict; TypeError elsewhere.\<close>

fun py_contains :: "char \<Rightarrow> json \<Rightarrow> py_exception + bool" where
  "py_contains c (JStr s) = Inr (c \<in> set s)"
| "py_contains c (JArr xs) = Inr (JStr [c] \<in> set xs)"
| "py_contains c (JObj kv) = Inr ([c] \<in> set (map fst kv))"
| "py_contains c _ = Inl TypeError"

text \<open>\<^verbatim>\<open>s.split(c)\<close> for a one-character separator: never an empty list.\<close>

fun split_on :: "char \<Rightarrow> string \<Rightarrow> string list" where
  "split_on c [] = [[]]"
| "split_on c (x # xs) =
     (if x = c then [] # split_on c xs
      else (case split_on c xs of [] \<Rightarrow> [[x]] | p # ps \<Rightarrow> (x # p) # ps))"

text \<open>\<^verbatim>\<open>sep.join(parts)\<close>.\<close>

fun py_join :: "string \<Rightarrow> string list \<Rightarrow> string" where
  "py_join sep [] = []"
| "py_join sep [p] = p"
| "py_join sep (p # q # ps) = p @ sep @ py_join sep (q # ps)"

text \<open>
  \<^verbatim>\<open>
  unique_parts = []
  for part in parts:
      if part not in unique_parts:
          unique_parts.append(part)
  \<close>
\<close>

fun unique_parts_loop :: "string list \<Rightarrow> string list \<Rightarrow> string list" where
  "unique_parts_loop unique_parts [] = unique_parts"
| "unique_parts_loop unique_parts (part # parts) =
     (if part \<notin> set unique_parts then unique_parts_loop (unique_parts @ [part]) parts
      else unique_parts_loop unique_parts parts)"

text \<open>\<^verbatim>\<open>x.split(c)\<close> on any value: only a str has the method.\<close>

fun attr_split :: "json \<Rightarrow> char \<Rightarrow> py_exception + string list" where
  "attr_split (JStr s) c = Inr (split_on c s)"
| "attr_split _ c = Inl AttributeError"

definition format_rule_id :: "pydict \<Rightarrow> py_exception + json" where
  "format_rule_id pattern_def =
     (let pattern_id = dict_get pattern_def ''id'' (JStr []) in
      case py_contains CHR ''.'' pattern_id of
        Inl e \<Rightarrow> Inl e
      | Inr has_dot \<Rightarrow>
          (case (if has_dot
                 then (case attr_split pattern_id CHR ''.'' of
                         Inl e \<Rightarrow> Inl e
                       | Inr parts \<Rightarrow> Inr (JStr (last parts)))
                 else Inr pattern_id) of
             Inl e \<Rightarrow> Inl e
           | Inr pattern_id1 \<Rightarrow>
               (case py_contains CHR ''-'' pattern_id1 of
                  Inl e \<Rightarrow> Inl e
                | Inr has_hyphen \<Rightarrow>
                    (case (if has_hyphen
                           then (case attr_split pattern_id1 CHR ''-'' of
                                   Inl e \<Rightarrow> Inl e
                                 | Inr parts \<Rightarrow>
                                     Inr (JStr (py_join ''-'' (unique_parts_loop [] parts))))
                           else Inr pattern_id1) of
                       Inl e \<Rightarrow> Inl e
                     | Inr pattern_id2 \<Rightarrow>
                         Inr (if truthy pattern_id2 then pattern_id2
                              else JStr ''unknown-rule'')))))"

text \<open>
  The simplification as the specification words it, on a string: the substring after
  the last \<open>.\<close>; the parts between hyphens with every repetition of an earlier part
  dropped; \<open>unknown-rule\<close> for an empty result.
\<close>

definition after_last :: "char \<Rightarrow> string \<Rightarrow> string" where
  "after_last c s = rev (takeWhile (\<lambda>x. x \<noteq> c) (rev s))"

fun first_occurrences :: "string list \<Rightarrow> string list" where
  "first_occurrences [] = []"
| "first_occurrences (p # ps) = p # filter (\<lambda>q. q \<noteq> p) (first_occurrences ps)"

definition simplified_id :: "string \<Rightarrow> string" where
  "simplified_id s =
     (let s1 = (if CHR ''.'' \<in> set s then after_last CHR ''.'' s else s);
          s2 = (if CHR ''-'' \<in> set s1
                then py_join ''-'' (first_occurrences (split_on CHR ''-'' s1)) else s1)
      in if s2 = [] then ''unknown-rule'' else s2)"

section \<open>Rule Transformer\<close>

text \<open>A rule is a dict with the keys \<open>id\<close>, \<open>languages\<close>, \<open>message\<close> (optional),
  \<open>severity\<close> (optional) and \<open>pattern\<close>, in this order. \<open>languages\<close> is
  \<^verbatim>\<open>list(a_set)\<close>, whose order Python leaves open: it is a set here.\<close>

record rule =
  rule_id :: json
  rule_languages :: "string set"
  rule_message :: "json option"
  rule_severity :: "string option"
  rule_pattern :: json

record config =
  cfg_rules :: "rule list"

text \<open>\<^verbatim>\<open>set(lang.lower() for lang in pattern_def.get("languages", []))\<close>, for the value
  \<open>v\<close> that the \<open>get\<close> returned.\<close>

definition lowered_set :: "json \<Rightarrow> py_exception + string set" where
  "lowered_set v =
     (case py_iter v of
        Inl e \<Rightarrow> Inl e
      | Inr xs \<Rightarrow> (case lower_all xs of Inl e \<Rightarrow> Inl e | Inr ss \<Rightarrow> Inr (set ss)))"

text \<open>The severity entry:
  \<^verbatim>\<open>
  severity = pattern.get("severity", "WARNING")
  if severity:
      rule["severity"] = severity.upper()
  \<close>\<close>

definition severity_entry :: "pydict \<Rightarrow> py_exception + string option" where
  "severity_entry pattern =
     (let severity = dict_get pattern ''severity'' (JStr ''WARNING'') in
      if truthy severity
      then (case str_upper severity of Inl e \<Rightarrow> Inl e | Inr s \<Rightarrow> Inr (Some s))
      else Inr None)"

text \<open>One pass of the loop body of \<^verbatim>\<open>create_semgrep_config\<close>: \<open>Inr None\<close> is
  \<^verbatim>\<open>continue\<close>, \<open>Inr (Some rule)\<close> the rule appended.\<close>

definition make_rule :: "pydict \<Rightarrow> string list \<Rightarrow> py_exception + rule option" where
  "make_rule pattern selected_languages =
     (let pattern_def = dict_get pattern ''patternDefinition'' (JObj []) in
      case attr_get pattern_def ''languages'' (JArr []) of
        Inl e \<Rightarrow> Inl e
      | Inr langs \<Rightarrow>
          (case lowered_set langs of
             Inl e \<Rightarrow> Inl e
           | Inr pattern_languages \<Rightarrow>
               if pattern_languages \<inter> set selected_languages = {} then Inr None
               else
                 (case pattern_def of
                    JObj pd \<Rightarrow>
                      (case format_rule_id pd of
                         Inl e \<Rightarrow> Inl e
                       | Inr rid \<Rightarrow>
                           (let message = dict_get pd ''description'' JNull in
                            case severity_entry pattern of
                              Inl e \<Rightarrow> Inl e
                            | Inr sev \<Rightarrow>
                                Inr (Some
                                  \<lparr>rule_id = rid,
                                   rule_languages = pattern_languages \<inter> set selected_languages,
                                   rule_message = (if truthy message then Some message else None),
                                   rule_severity = sev,
                                   rule_pattern =
                                     (case map_of pd ''pattern'' of
                                        Some v \<Rightarrow> v
                                      | None \<Rightarrow> JStr ''{}'')\<rparr>)))
                  | _ \<Rightarrow> Inl AttributeError)))"

text \<open>The loop over the patterns, with the list \<^verbatim>\<open>rules\<close> as accumulator.\<close>

fun rules_loop :: "rule list \<Rightarrow> pydict list \<Rightarrow> string list \<Rightarrow> py_exception + rule list" where
  "rules_loop rules [] selected_languages = Inr rules"
| "rules_loop rules (pattern # patterns) selected_languages =
     (case make_rule pattern selected_languages of
        Inl e \<Rightarrow> Inl e
      | Inr None \<Rightarrow> rules_loop rules patterns selected_languages
      | Inr (Some rule) \<Rightarrow> rules_loop (rules @ [rule]) patterns selected_languages)"

definition create_semgrep_config :: "pydict list \<Rightarrow> string list \<Rightarrow> py_exception + config" where
  "create_semgrep_config patterns selected_languages =
     (case rules_loop [] patterns selected_languages of
        Inl e \<Rightarrow> Inl e
      | Inr rs \<Rightarrow> Inr \<lparr>cfg_rules = rs\<rparr>)"

section \<open>The data model's typed view of a pattern\<close>



text \<open>The pattern's lower-cased language set as the code reads it, in both loops:
  \<^verbatim>\<open>pattern.get("patternDefinition", {}).get("languages", [])\<close>, each element lower-cased,
  collected into a set. \<open>language_set\<close> is that set (empty where reading it raises).\<close>

definition pattern_languages :: "pydict \<Rightarrow> py_exception + string set" where
  "pattern_languages pattern =
     (case attr_get (dict_get pattern ''patternDefinition'' (JObj [])) ''languages'' (JArr []) of
        Inl e \<Rightarrow> Inl e
      | Inr v \<Rightarrow> lowered_set v)"




text \<open>The patterns that contribute a rule, in input order: those whose pass through the
  loop body does not end in \<^verbatim>\<open>continue\<close>.\<close>

definition contributing :: "pydict list \<Rightarrow> string list \<Rightarrow> pydict list" where
  "contributing patterns selected_languages =
     filter (\<lambda>p. make_rule p selected_languages \<noteq> Inr None) patterns"

section \<open>Example patterns\<close>

definition pattern_py_go :: pydict where
  "pattern_py_go =
     [(''id'', JStr ''Semgrep_eval''), (''enabled'', JBool True),
      (''patternDefinition'', JObj
         [(''id'', JStr ''python.lang.security.eval-detected''),
          (''description'', JStr ''Detected eval''),
          (''languages'', JArr [JStr ''Python'', JStr ''Go''])])]"

definition pattern_js :: pydict where
  "pattern_js =
     [(''id'', JStr ''Semgrep_vars''), (''enabled'', JBool True), (''severity'', JStr ''Error''),
      (''patternDefinition'', JObj
         [(''id'', JStr ''eslint.no-unused-vars-no-unused-vars''),
          (''languages'', JArr [JStr ''JavaScript'']),
          (''pattern'', JStr ''var $X'')])]"

definition pattern_null_body :: pydict where
  "pattern_null_body =
     [(''severity'', JStr ''Info''),
      (''patternDefinition'', JObj
         [(''id'', JStr ''go.nil''),
          (''languages'', JArr [JStr ''GO'']),
          (''pattern'', JNull)])]"

definition pattern_empty_severity :: pydict where
  "pattern_empty_severity =
     [(''severity'', JStr []),
      (''patternDefinition'', JObj
         [(''id'', JStr ''python.lang.exec''),
          (''languages'', JArr [JStr ''python''])])]"

definition pattern_empty_body :: pydict where
  "pattern_empty_body =
     [(''patternDefinition'', JObj
         [(''id'', JStr ''go.empty''),
          (''languages'', JArr [JStr ''Go'']),
          (''pattern'', JStr [])])]"

section \<open>Pagination Walker\<close>

text \<open>
  The request the walker sends is the URL it builds: the four path parameters, the
  fixed \<^verbatim>\<open>limit=1000\<close>, and the parameter \<^verbatim>\<open>&cursor=...\<close> when it is appended (the value
  is the cursor that the f-string formats).
\<close>

record request =
  req_organization :: string
  req_provider :: string
  req_coding_standard_id :: string
  req_tool_uuid :: string
  req_limit :: nat
  req_cursor :: "json option"

text \<open>
  \<^verbatim>\<open>
  url = f"{CODACY_API_BASE_URL}/organizations/.../patterns?limit=1000"
  if cursor:
      url += f"&cursor={cursor}"
  \<close>
\<close>

definition build_url :: "request \<Rightarrow> json \<Rightarrow> request" where
  "build_url base cursor = base\<lparr>req_cursor := (if truthy cursor then Some cursor else None)\<rparr>"

text \<open>
  The remote service is an external collaborator: a state of its own and, for every
  request, either the exception that \<^verbatim>\<open>requests.get\<close>, \<^verbatim>\<open>raise_for_status\<close> or
  \<^verbatim>\<open>response.json()\<close> raises, or the parsed body, and the state it is in afterwards.
  The walker's variables are \<^verbatim>\<open>patterns\<close> and \<^verbatim>\<open>cursor\<close>; the requests sent so far are
  recorded beside them.
\<close>

type_synonym 's service = "'s \<Rightarrow> request \<Rightarrow> (py_exception + json) \<times> 's"

record 's walker =
  w_service :: 's
  w_patterns :: "json list"
  w_cursor :: json
  w_requests :: "request list"

text \<open>One pass through the body of \<^verbatim>\<open>while True\<close>, up to the test of the new cursor:
  \<^verbatim>\<open>
  response = requests.get(url, headers=get_codacy_headers())
  response.raise_for_status()
  data = response.json()
  patterns.extend(data["data"])
  cursor = data.get("pagination", {}).get("cursor")
  \<close>\<close>

definition fetch_page :: "'s service \<Rightarrow> request \<Rightarrow> 's walker \<Rightarrow> py_exception + 's walker" where
  "fetch_page serve base w =
     (let url = build_url base (w_cursor w);
          (response, s') = serve (w_service w) url
      in case response of
           Inl e \<Rightarrow> Inl e
         | Inr data \<Rightarrow>
             (case subscript data ''data'' of
                Inl e \<Rightarrow> Inl e
              | Inr d \<Rightarrow>
                  (case py_iter d of
                     Inl e \<Rightarrow> Inl e
                   | Inr items \<Rightarrow>
                       (case attr_get data ''pagination'' (JObj []) of
                          Inl e \<Rightarrow> Inl e
                        | Inr pagination \<Rightarrow>
                            (case attr_get pagination ''cursor'' JNull of
                               Inl e \<Rightarrow> Inl e
                             | Inr cursor \<Rightarrow>
                                 Inr \<lparr>w_service = s',
                                      w_patterns = w_patterns w @ items,
                                      w_cursor = cursor,
                                      w_requests = w_requests w @ [url]\<rparr>)))))"

text \<open>The loop: \<^verbatim>\<open>if not cursor: break\<close> after each pass. It has no bound, so it
  is a partial function: \<open>None\<close> is a loop that never ends.\<close>

partial_function (option) fetch_loop ::
  "'s service \<Rightarrow> request \<Rightarrow> 's walker \<Rightarrow> (py_exception + 's walker) option" where
  "fetch_loop serve base w =
     (case fetch_page serve base w of
        Inl e \<Rightarrow> Some (Inl e)
      | Inr w' \<Rightarrow> if \<not> truthy (w_cursor w') then Some (Inr w') else fetch_loop serve base w')"

text \<open>\<^verbatim>\<open>get_code_patterns_for_tool\<close> starts the loop with \<^verbatim>\<open>patterns = []\<close> and
  \<^verbatim>\<open>cursor = None\<close>; what it returns is \<open>w_patterns\<close> of the final walker.\<close>

definition tool_request :: "string \<Rightarrow> string \<Rightarrow> string \<Rightarrow> string \<Rightarrow> request" where
  "tool_request organization provider coding_standard_id tool_uuid =
     \<lparr>req_organization = organization, req_provider = provider,
      req_coding_standard_id = coding_standard_id, req_tool_uuid = tool_uuid,
      req_limit = 1000, req_cursor = None\<rparr>"

definition get_code_patterns_for_tool ::
  "'s service \<Rightarrow> 's \<Rightarrow> string \<Rightarrow> string \<Rightarrow> string \<Rightarrow> string
     \<Rightarrow> (py_exception + 's walker) option" where
  "get_code_patterns_for_tool serve s organization provider coding_standard_id tool_uuid =
     fetch_loop serve (tool_request organization provider coding_standard_id tool_uuid)
       \<lparr>w_service = s, w_patterns = [], w_cursor = JNull, w_requests = []\<rparr>"

text \<open>The loop cut off after \<open>n\<close> passes.\<close>

fun loop_run :: "nat \<Rightarrow> 's service \<Rightarrow> request \<Rightarrow> 's walker \<Rightarrow> (py_exception + 's walker) option" where
  "loop_run 0 serve base w = None"
| "loop_run (Suc n) serve base w =
     (case fetch_page serve base w of
        Inl e \<Rightarrow> Some (Inl e)
      | Inr w' \<Rightarrow> if \<not> truthy (w_cursor w') then Some (Inr w') else loop_run n serve base w')"

text \<open>
  A page is a body the walker can read: \<open>data\<close> is there and iterable (a list, in the
  service's format), \<open>pagination\<close> is absent or a dict. \<open>page_items\<close> is the page's
  \<open>data\<close>, \<open>page_cursor\<close> the cursor of its pagination metadata (None when there is no
  metadata or no cursor in it).
\<close>

definition is_page :: "json \<Rightarrow> bool" where
  "is_page body =
     (case subscript body ''data'' of
        Inl e \<Rightarrow> False
      | Inr d \<Rightarrow>
          (case py_iter d of
             Inl e \<Rightarrow> False
           | Inr items \<Rightarrow>
               (case attr_get body ''pagination'' (JObj []) of
                  Inr (JObj pg) \<Rightarrow> True
                | _ \<Rightarrow> False)))"

definition page_items :: "json \<Rightarrow> json list" where
  "page_items body =
     (case subscript body ''data'' of
        Inl e \<Rightarrow> []
      | Inr d \<Rightarrow> (case py_iter d of Inl e \<Rightarrow> [] | Inr items \<Rightarrow> items))"

definition page_cursor :: "json \<Rightarrow> json" where
  "page_cursor body =
     (case attr_get body ''pagination'' (JObj []) of
        Inr (JObj pg) \<Rightarrow> dict_get pg ''cursor'' JNull
      | _ \<Rightarrow> JNull)"

text \<open>The service, in state \<open>s\<close>, answers the walker's successive requests with the
  pages \<open>ps\<close>: the first request carries the cursor \<open>c\<close> (if it tests true), every
  later one the cursor of the page before.\<close>

fun served :: "'s service \<Rightarrow> request \<Rightarrow> 's \<Rightarrow> json \<Rightarrow> json list \<Rightarrow> bool" where
  "served serve base s c [] = True"
| "served serve base s c (p # ps) =
     (fst (serve s (build_url base c)) = Inr p
      \<and> served serve base (snd (serve s (build_url base c))) (page_cursor p) ps)"

text \<open>The pages \<open>ps\<close> are a finished exchange: the service answers the walker's
  requests with them, every page but the last has a cursor that tests true, and the
  last has none that does.\<close>

definition walk_of :: "'s service \<Rightarrow> request \<Rightarrow> 's \<Rightarrow> json \<Rightarrow> json list \<Rightarrow> bool" where
  "walk_of serve base s c ps =
     (ps \<noteq> [] \<and> served serve base s c ps \<and> list_all is_page ps
      \<and> list_all (\<lambda>p. truthy (page_cursor p)) (butlast ps)
      \<and> \<not> truthy (page_cursor (last ps)))"

text \<open>A service for the examples: it counts the requests it has served, and answers by
  the cursor of the request.\<close>

definition page1 :: json where
  "page1 = JObj [(''data'', JArr [JObj pattern_on, JObj pattern_off]),
                 (''pagination'', JObj [(''cursor'', JStr ''c1''), (''limit'', JInt 1000)])]"

definition page2 :: json where
  "page2 = JObj [(''data'', JArr [JObj pattern_bare]),
                 (''pagination'', JObj [(''cursor'', JStr ''c2''), (''limit'', JInt 1000)])]"

definition page3 :: json where
  "page3 = JObj [(''data'', JArr [JObj pattern_js]),
                 (''pagination'', JObj [(''limit'', JInt 1000)])]"

definition three_pages :: "nat service" where
  "three_pages n r =
     ((case req_cursor r of
         None \<Rightarrow> Inr page1
       | Some c \<Rightarrow>
           if c = JStr ''c1'' then Inr page2
           else if c = JStr ''c2'' then Inr page3
           else Inl (RequestException ''404 Client Error'')),
      Suc n)"

definition page_null_cursor :: json where
  "page_null_cursor = JObj [(''data'', JArr [JObj pattern_on]),
                            (''pagination'', JObj [(''cursor'', JNull)])]"

definition page_empty_cursor :: json where
  "page_empty_cursor = JObj [(''data'', JArr [JObj pattern_on]),
                             (''pagination'', JObj [(''cursor'', JStr [])])]"

definition page_no_pagination :: json where
  "page_no_pagination = JObj [(''data'', JArr [JObj pattern_on])]"

definition always :: "json \<Rightarrow> nat service" where
  "always body n r = (Inr body, Suc n)"

section \<open>Interactive Orchestrator\<close>

text \<open>
  \<^verbatim>\<open>main\<close> checks the credential, then runs its steps inside one \<^verbatim>\<open>try\<close> with the handlers
  \<^verbatim>\<open>except requests.RequestException\<close> and \<^verbatim>\<open>except Exception\<close>. The steps themselves
  (prompts, API calls, transformation, file write) are a run on the outside world
  here: from a state (what has been printed so far, and everything else: network,
  input, files) the run ends with an exception or normally, in a new state.
  \<open>KeyboardInterrupt\<close> is the one class of the model that is not an \<^verbatim>\<open>Exception\<close>.
\<close>

datatype console_line =
    Line string
  | Api_error_line py_exception
  | Error_line py_exception
  | Traceback_of py_exception

record 'w run_state =
  console :: "console_line list"
  world :: 'w

datatype outcome = Returned | Propagated py_exception

type_synonym 'w steps = "'w run_state \<Rightarrow> (py_exception + unit) \<times> 'w run_state"

fun is_request_exception :: "py_exception \<Rightarrow> bool" where
  "is_request_exception (RequestException m) = True"
| "is_request_exception _ = False"

fun is_exception :: "py_exception \<Rightarrow> bool" where
  "is_exception KeyboardInterrupt = False"
| "is_exception _ = True"

text \<open>
  \<^verbatim>\<open>
  if not CODACY_API_TOKEN:
      raise ValueError("CODACY_API_TOKEN environment variable is not set")
  try:
      ...
  except requests.RequestException as e:
      print(f"Error accessing Codacy API: {e}")
  except Exception as e:
      print(f"An error occurred: {e}")
      traceback.print_exc()
  \<close>
  \<open>token\<close> is \<^verbatim>\<open>os.environ.get("CODACY_API_TOKEN")\<close>: None or a str.
\<close>

definition main :: "string option \<Rightarrow> 'w steps \<Rightarrow> 'w run_state \<Rightarrow> outcome \<times> 'w run_state" where
  "main token steps st =
     (if token = None \<or> token = Some []
      then (Propagated (ValueError ''CODACY_API_TOKEN environment variable is not set''), st)
      else
        (case steps st of
           (Inr u, st') \<Rightarrow> (Returned, st')
         | (Inl e, st') \<Rightarrow>
             if is_request_exception e
             then (Returned, st'\<lparr>console := console st' @ [Api_error_line e]\<rparr>)
             else if is_exception e
             then (Returned, st'\<lparr>console := console st' @ [Error_line e, Traceback_of e]\<rparr>)
             else (Propagated e, st')))"

text \<open>The exit status of \<^verbatim>\<open>if __name__ == "__main__": main()\<close>: 0 when \<^verbatim>\<open>main\<close> returns;
  an exception that leaves \<^verbatim>\<open>main\<close> ends the interpreter with its traceback and a
  status that is not 0.\<close>

fun exit_status :: "outcome \<Rightarrow> nat" where
  "exit_status Returned = 0"
| "exit_status (Propagated KeyboardInterrupt) = 130"
| "exit_status (Propagated e) = 1"

text \<open>Runs for the examples: one that fails with a given exception after a request,
  one that never gets that far.\<close>

definition failing_steps :: "py_exception \<Rightarrow> nat steps" where
  "failing_steps e st = (Inl e, st\<lparr>console := console st @ [Line ''Using provider: GitHub''],
                                   world := Suc (world st)\<rparr>)"

definition fresh :: "nat run_state" where
  "fresh = \<lparr>console = [], world = 0\<rparr>"

section \<open>Properties of the Pattern Filter\<close>

lemma enabled_truthy_get:
  "truthy (dict_get p ''enabled'' (JBool False)) = enabled_truthy p"
  by (simp add: dict_get_def enabled_truthy_def split: option.split)

lemma filter_enabled_patterns_filter:
  "filter_enabled_patterns ps = filter enabled_truthy ps"
  by (simp add: filter_enabled_patterns_def enabled_truthy_get)

text \<open>
  C6: the filter returns a subsequence of its input; a pattern is in the result exactly
  when it is in the input and its \<open>enabled\<close> attribute is truthy, as many times and in the
  same order as in the input, each the very same record; filtering a second time
  changes nothing.
\<close>

theorem filter_enabled_patterns_subseq_idem:
  "subseq (filter_enabled_patterns ps) ps
   \<and> set (filter_enabled_patterns ps) = {p \<in> set ps. enabled_truthy p}
   \<and> (\<forall>p. count_list (filter_enabled_patterns ps) p
          = (if enabled_truthy p then count_list ps p else 0))
   \<and> filter_enabled_patterns (filter_enabled_patterns ps) = filter_enabled_patterns ps"
proof -
  have cnt: "count_list (filter enabled_truthy xs) p
               = (if enabled_truthy p then count_list xs p else 0)" for xs p
    by (induction xs) auto
  show ?thesis
    unfolding filter_enabled_patterns_filter
    by (simp add: cnt)
qed

theorem filter_enabled_patterns_subseq_idem_witness:
  "filter_enabled_patterns [pattern_on, pattern_off, pattern_bare, pattern_on]
     = [pattern_on, pattern_on]
   \<and> subseq [pattern_on, pattern_on] [pattern_on, pattern_off, pattern_bare, pattern_on]
   \<and> filter_enabled_patterns [pattern_on, pattern_on] = [pattern_on, pattern_on]"
proof -
  have e: "filter_enabled_patterns [pattern_on, pattern_off, pattern_bare, pattern_on]
             = [pattern_on, pattern_on]"
    by (simp add: filter_enabled_patterns_def dict_get_def pattern_on_def pattern_off_def
        pattern_bare_def)
  from filter_enabled_patterns_subseq_idem
    [of "[pattern_on, pattern_off, pattern_bare, pattern_on]"]
  show ?thesis unfolding e by simp
qed

text \<open>
  C8: a pattern record without the \<open>enabled\<close> field is dropped, wherever it stands in the
  input; the filter is a total function, so nothing is raised.
\<close>

theorem filter_enabled_patterns_drops_missing:
  "map_of p ''enabled'' = None \<Longrightarrow>
     p \<notin> set (filter_enabled_patterns ps)
     \<and> filter_enabled_patterns (ps @ p # qs)
         = filter_enabled_patterns ps @ filter_enabled_patterns qs"
  by (simp add: filter_enabled_patterns_def dict_get_def)

theorem filter_enabled_patterns_drops_missing_witness:
  "map_of pattern_bare ''enabled'' = None
   \<and> pattern_bare \<notin> set (filter_enabled_patterns [pattern_on, pattern_bare])
   \<and> filter_enabled_patterns ([pattern_on] @ pattern_bare # [pattern_on])
        = [pattern_on, pattern_on]"
proof -
  have h: "map_of pattern_bare ''enabled'' = None"
    by (simp add: pattern_bare_def)
  have e: "filter_enabled_patterns [pattern_on] = [pattern_on]"
    by (simp add: filter_enabled_patterns_def dict_get_def pattern_on_def)
  from filter_enabled_patterns_drops_missing [OF h, of "[pattern_on]" "[pattern_on]"]
    filter_enabled_patterns_drops_missing [OF h, of "[pattern_on, pattern_bare]" "[]"]
  show ?thesis using h e by simp
qed

section \<open>Properties of the rule identifiers\<close>

lemma split_on_nonempty: "split_on c s \<noteq> []"
  by (induction s) (auto split: list.splits)

lemma after_last_Cons:
  "after_last c (x # xs) = (if c \<in> set xs then after_last c xs
                            else if x = c then xs else x # xs)"
proof (cases "c \<in> set xs")
  case True
  then have "takeWhile (\<lambda>y. y \<noteq> c) (rev xs @ [x]) = takeWhile (\<lambda>y. y \<noteq> c) (rev xs)"
    by (intro takeWhile_append1 [of c]) auto
  with True show ?thesis
    by (simp add: after_last_def)
next
  case False
  then have "takeWhile (\<lambda>y. y \<noteq> c) (rev xs @ [x])
               = rev xs @ takeWhile (\<lambda>y. y \<noteq> c) [x]"
    by (intro takeWhile_append2) auto
  with False show ?thesis
    by (simp add: after_last_def)
qed

lemma split_on_no_sep: "c \<notin> set s \<Longrightarrow> split_on c s = [s]"
  by (induction s) auto

lemma split_on_single: "split_on c s = [p] \<Longrightarrow> c \<notin> set s"
  using split_on_nonempty [of c]
  by (induction s arbitrary: p) (auto split: if_splits list.splits)

lemma last_split_on: "last (split_on c s) = after_last c s"
proof (induction s)
  case Nil
  show ?case by (simp add: after_last_def)
next
  case (Cons x xs)
  show ?case
  proof (cases "c \<in> set xs")
    case True
    with Cons split_on_nonempty [of c xs] show ?thesis
      by (auto simp: after_last_Cons split: list.splits dest: split_on_single)
  next
    case False
    then show ?thesis
      by (simp add: after_last_Cons split_on_no_sep)
  qed
qed

lemma first_occurrences_filter:
  "first_occurrences (filter P xs) = filter P (first_occurrences xs)"
proof (induction xs)
  case Nil
  show ?case by simp
next
  case (Cons x xs)
  show ?case
  proof (cases "P x")
    case True
    have "filter (\<lambda>q. q \<noteq> x) (filter P ys) = filter P (filter (\<lambda>q. q \<noteq> x) ys)"
      for ys :: "string list"
      by (induction ys) auto
    with True Cons show ?thesis by simp
  next
    case False
    then have "filter P (filter (\<lambda>q. q \<noteq> x) ys) = filter P ys" for ys :: "string list"
      by (induction ys) auto
    with False Cons show ?thesis by simp
  qed
qed

lemma unique_parts_loop_acc:
  "unique_parts_loop acc parts
     = acc @ first_occurrences (filter (\<lambda>p. p \<notin> set acc) parts)"
proof (induction parts arbitrary: acc)
  case Nil
  show ?case by simp
next
  case (Cons part parts)
  show ?case
  proof (cases "part \<in> set acc")
    case True
    with Cons show ?thesis by simp
  next
    case False
    have "filter (\<lambda>p. p \<notin> set (acc @ [part])) parts
            = filter (\<lambda>q. q \<noteq> part) (filter (\<lambda>p. p \<notin> set acc) parts)"
      by (induction parts) auto
    with False Cons [of "acc @ [part]"] show ?thesis
      by (simp add: first_occurrences_filter [symmetric])
  qed
qed

lemma unique_parts_loop_first_occurrences:
  "unique_parts_loop [] parts = first_occurrences parts"
  by (simp add: unique_parts_loop_acc)

lemma format_rule_id_str:
  "map_of pattern_def ''id'' = Some (JStr s) \<Longrightarrow>
     format_rule_id pattern_def = Inr (JStr (simplified_id s))"
  by (simp add: format_rule_id_def dict_get_def simplified_id_def Let_def
      last_split_on unique_parts_loop_first_occurrences)

lemma format_rule_id_absent:
  "map_of pattern_def ''id'' = None \<Longrightarrow>
     format_rule_id pattern_def = Inr (JStr ''unknown-rule'')"
  by (simp add: format_rule_id_def dict_get_def)

text \<open>
  C2: on a string id, \<open>format_rule_id\<close> computes the simplification the specification
  describes (the substring after the last \<open>.\<close>, then the hyphen-separated parts with only
  the first occurrence of each kept, then \<open>unknown-rule\<close> for an empty result); an absent
  id is the empty string; and the three examples come out as stated.
\<close>

theorem format_rule_id_simplified:
  "(map_of pattern_def ''id'' = Some (JStr s)
      \<longrightarrow> format_rule_id pattern_def = Inr (JStr (simplified_id s)))
   \<and> (map_of pattern_def ''id'' = None
      \<longrightarrow> format_rule_id pattern_def = Inr (JStr ''unknown-rule''))
   \<and> simplified_id ''python.security.audit.audit'' = ''audit''
   \<and> simplified_id ''eslint.no-unused-vars-no-unused-vars'' = ''no-unused-vars''
   \<and> simplified_id '''' = ''unknown-rule''"
proof -
  note a = format_rule_id_str [of pattern_def s]
  note b = format_rule_id_absent [of pattern_def]
  have c: "simplified_id ''python.security.audit.audit'' = ''audit''"
    by (simp add: simplified_id_def after_last_def)
  have d: "simplified_id ''eslint.no-unused-vars-no-unused-vars'' = ''no-unused-vars''"
    by (simp add: simplified_id_def after_last_def)
  have e: "simplified_id '''' = ''unknown-rule''"
    by (simp add: simplified_id_def)
  from a b c d e show ?thesis by blast
qed

theorem format_rule_id_simplified_witness:
  "format_rule_id [(''id'', JStr ''python.security.audit.audit'')] = Inr (JStr ''audit'')
   \<and> format_rule_id [(''id'', JStr ''eslint.no-unused-vars-no-unused-vars'')]
        = Inr (JStr ''no-unused-vars'')
   \<and> format_rule_id [(''id'', JStr '''')] = Inr (JStr ''unknown-rule'')
   \<and> format_rule_id [(''description'', JStr ''no id'')] = Inr (JStr ''unknown-rule'')"
  using
    format_rule_id_simplified [of "[(''id'', JStr ''python.security.audit.audit'')]"
      "''python.security.audit.audit''"]
    format_rule_id_simplified [of "[(''id'', JStr ''eslint.no-unused-vars-no-unused-vars'')]"
      "''eslint.no-unused-vars-no-unused-vars''"]
    format_rule_id_simplified [of "[(''id'', JStr '''')]" "''''"]
    format_rule_id_simplified [of "[(''description'', JStr ''no id'')]" "''''"]
  by simp

section \<open>Properties of the Rule Transformer\<close>

lemma rules_loop_acc:
  "rules_loop acc ps sel = Inr out \<Longrightarrow>
     \<exists>rs. out = acc @ rs
       \<and> list_all2 (\<lambda>p r. make_rule p sel = Inr (Some r)) (contributing ps sel) rs"
proof (induction ps arbitrary: acc)
  case Nil
  then show ?case by (simp add: contributing_def)
next
  case (Cons p ps)
  show ?case
  proof (cases "make_rule p sel")
    case (Inl e)
    with Cons.prems show ?thesis by simp
  next
    case (Inr ro)
    show ?thesis
    proof (cases ro)
      case None
      with Inr Cons.prems have "rules_loop acc ps sel = Inr out" by simp
      from Cons.IH [OF this] Inr None show ?thesis
        by (simp add: contributing_def)
    next
      case (Some r)
      with Inr Cons.prems have "rules_loop (acc @ [r]) ps sel = Inr out" by simp
      from Cons.IH [OF this] obtain rs where
        "out = (acc @ [r]) @ rs"
        "list_all2 (\<lambda>p r. make_rule p sel = Inr (Some r)) (contributing ps sel) rs"
        by blast
      with Inr Some show ?thesis
        by (simp add: contributing_def)
    qed
  qed
qed

lemma config_rules_correspond:
  "create_semgrep_config ps sel = Inr cfg \<Longrightarrow>
     list_all2 (\<lambda>p r. make_rule p sel = Inr (Some r)) (contributing ps sel) (cfg_rules cfg)"
  using rules_loop_acc [of "[]" ps sel]
  by (auto simp: create_semgrep_config_def split: sum.splits)







lemma make_rule_some_fields:
  assumes "make_rule p sel = Inr (Some r)"
  shows "\<exists>pd. map_of p ''patternDefinition'' = Some (JObj pd)
           \<and> format_rule_id pd = Inr (rule_id r)
           \<and> (\<exists>S. lowered_set (dict_get pd ''languages'' (JArr [])) = Inr S
                  \<and> rule_languages r = S \<inter> set sel)
           \<and> rule_languages r \<noteq> {}
           \<and> severity_entry p = Inr (rule_severity r)
           \<and> rule_pattern r = (case map_of pd ''pattern'' of None \<Rightarrow> JStr ''{}'' | Some v \<Rightarrow> v)"
proof (cases "map_of p ''patternDefinition''")
  case None
  with assms show ?thesis
    by (simp add: make_rule_def dict_get_def lowered_set_def)
next
  case (Some v)
  with assms obtain pd where v: "v = JObj pd"
    by (cases v) (simp_all add: make_rule_def dict_get_def)
  from assms Some v show ?thesis
    by (auto simp: make_rule_def dict_get_def Let_def
        split: sum.splits if_splits option.splits)
qed

lemma severity_entry_cases:
  assumes "severity_entry p = Inr sev"
  shows "case map_of p ''severity'' of
           None \<Rightarrow> sev = Some ''WARNING''
         | Some v \<Rightarrow> if truthy v then (\<exists>s. v = JStr s \<and> sev = Some (upper s)) else sev = None"
proof (cases "map_of p ''severity''")
  case None
  with assms show ?thesis
    by (auto simp: severity_entry_def dict_get_def upper_def upper_char_def less_eq_char_def)
next
  case (Some v)
  with assms show ?thesis
    by (cases v) (auto simp: severity_entry_def dict_get_def split: if_splits)
qed




text \<open>
  C4 as stated fails: the pattern \<open>pattern_empty_severity\<close>, whose \<open>severity\<close> is the empty
  string, contributes a rule that carries no \<open>severity\<close> field.
\<close>

theorem rule_severity_always_counterexample:
  "map_of pattern_empty_severity ''severity'' = Some (JStr [])
   \<and> create_semgrep_config [pattern_empty_severity] [''python'']
       = Inr \<lparr>cfg_rules =
               [\<lparr>rule_id = JStr ''exec'', rule_languages = {''python''},
                 rule_message = None, rule_severity = None,
                 rule_pattern = JStr ''{}''\<rparr>]\<rparr>"
  by code_simp

text \<open>
  C4, amended: every rule of the config belongs to one contributing pattern, in order;
  the rule's \<open>severity\<close> is \<open>WARNING\<close> when the pattern has no \<open>severity\<close>, the upper-cased
  value when the pattern's \<open>severity\<close> is a non-empty string, and the rule has no
  \<open>severity\<close> field when the pattern's \<open>severity\<close> is present and tests false (null, the
  empty string).
\<close>

theorem rule_severity_upper_or_absent:
  assumes "create_semgrep_config ps sel = Inr cfg"
  shows "list_all2
           (\<lambda>p r. case map_of p ''severity'' of
                     None \<Rightarrow> rule_severity r = Some ''WARNING''
                   | Some v \<Rightarrow>
                       if truthy v then (\<exists>s. v = JStr s \<and> rule_severity r = Some (upper s))
                       else rule_severity r = None)
           (contributing ps sel) (cfg_rules cfg)"
proof -
  from config_rules_correspond [OF assms]
  show ?thesis
  proof (rule list.rel_mono_strong)
    fix p r
    assume "make_rule p sel = Inr (Some r)"
    from make_rule_some_fields [OF this] have "severity_entry p = Inr (rule_severity r)"
      by blast
    from severity_entry_cases [OF this]
    show "case map_of p ''severity'' of
            None \<Rightarrow> rule_severity r = Some ''WARNING''
          | Some v \<Rightarrow>
              if truthy v then (\<exists>s. v = JStr s \<and> rule_severity r = Some (upper s))
              else rule_severity r = None" .
  qed
qed

theorem rule_severity_upper_or_absent_witness:
  "create_semgrep_config [pattern_py_go, pattern_js, pattern_null_body, pattern_empty_severity]
     [''javascript'', ''go'', ''python'']
     = Inr \<lparr>cfg_rules =
        [\<lparr>rule_id = JStr ''eval-detected'', rule_languages = {''python'', ''go''},
          rule_message = Some (JStr ''Detected eval''), rule_severity = Some ''WARNING'',
          rule_pattern = JStr ''{}''\<rparr>,
         \<lparr>rule_id = JStr ''no-unused-vars'', rule_languages = {''javascript''},
          rule_message = None, rule_severity = Some ''ERROR'',
          rule_pattern = JStr ''var $X''\<rparr>,
         \<lparr>rule_id = JStr ''nil'', rule_languages = {''go''},
          rule_message = None, rule_severity = Some ''INFO'', rule_pattern = JNull\<rparr>,
         \<lparr>rule_id = JStr ''exec'', rule_languages = {''python''},
          rule_message = None, rule_severity = None, rule_pattern = JStr ''{}''\<rparr>]\<rparr>
   \<and> list_all2
        (\<lambda>p r. case map_of p ''severity'' of
                  None \<Rightarrow> rule_severity r = Some ''WARNING''
                | Some v \<Rightarrow>
                    if truthy v then (\<exists>s. v = JStr s \<and> rule_severity r = Some (upper s))
                    else rule_severity r = None)
        (contributing [pattern_py_go, pattern_js, pattern_null_body, pattern_empty_severity]
           [''javascript'', ''go'', ''python''])
        [\<lparr>rule_id = JStr ''eval-detected'', rule_languages = {''python'', ''go''},
          rule_message = Some (JStr ''Detected eval''), rule_severity = Some ''WARNING'',
          rule_pattern = JStr ''{}''\<rparr>,
         \<lparr>rule_id = JStr ''no-unused-vars'', rule_languages = {''javascript''},
          rule_message = None, rule_severity = Some ''ERROR'',
          rule_pattern = JStr ''var $X''\<rparr>,
         \<lparr>rule_id = JStr ''nil'', rule_languages = {''go''},
          rule_message = None, rule_severity = Some ''INFO'', rule_pattern = JNull\<rparr>,
         \<lparr>rule_id = JStr ''exec'', rule_languages = {''python''},
          rule_message = None, rule_severity = None, rule_pattern = JStr ''{}''\<rparr>]"
proof -
  have e: "create_semgrep_config
             [pattern_py_go, pattern_js, pattern_null_body, pattern_empty_severity]
             [''javascript'', ''go'', ''python'']
     = Inr \<lparr>cfg_rules =
        [\<lparr>rule_id = JStr ''eval-detected'', rule_languages = {''python'', ''go''},
          rule_message = Some (JStr ''Detected eval''), rule_severity = Some ''WARNING'',
          rule_pattern = JStr ''{}''\<rparr>,
         \<lparr>rule_id = JStr ''no-unused-vars'', rule_languages = {''javascript''},
          rule_message = None, rule_severity = Some ''ERROR'',
          rule_pattern = JStr ''var $X''\<rparr>,
         \<lparr>rule_id = JStr ''nil'', rule_languages = {''go''},
          rule_message = None, rule_severity = Some ''INFO'', rule_pattern = JNull\<rparr>,
         \<lparr>rule_id = JStr ''exec'', rule_languages = {''python''},
          rule_message = None, rule_severity = None, rule_pattern = JStr ''{}''\<rparr>]\<rparr>"
    by code_simp
  from rule_severity_upper_or_absent [OF e] e show ?thesis by simp
qed

text \<open>
  C9: every rule of the config belongs to one contributing pattern, in order; such a
  pattern has a \<open>patternDefinition\<close> record, and the rule's \<open>pattern\<close> is the placeholder
  \<open>{}\<close> when that record has no key \<open>pattern\<close> and the key's value, whatever it is (null
  and the empty string included), when it has one.
\<close>

theorem rule_pattern_placeholder_iff_absent:
  assumes "create_semgrep_config ps sel = Inr cfg"
  shows "list_all2
           (\<lambda>p r. \<exists>pd. map_of p ''patternDefinition'' = Some (JObj pd)
                     \<and> rule_pattern r
                         = (case map_of pd ''pattern'' of None \<Rightarrow> JStr ''{}'' | Some v \<Rightarrow> v))
           (contributing ps sel) (cfg_rules cfg)"
proof -
  from config_rules_correspond [OF assms]
  show ?thesis
  proof (rule list.rel_mono_strong)
    fix p r
    assume "make_rule p sel = Inr (Some r)"
    from make_rule_some_fields [OF this]
    show "\<exists>pd. map_of p ''patternDefinition'' = Some (JObj pd)
            \<and> rule_pattern r
                = (case map_of pd ''pattern'' of None \<Rightarrow> JStr ''{}'' | Some v \<Rightarrow> v)"
      by blast
  qed
qed

theorem rule_pattern_placeholder_iff_absent_witness:
  "create_semgrep_config [pattern_py_go, pattern_null_body, pattern_empty_body]
     [''go'']
     = Inr \<lparr>cfg_rules =
        [\<lparr>rule_id = JStr ''eval-detected'', rule_languages = {''go''},
          rule_message = Some (JStr ''Detected eval''), rule_severity = Some ''WARNING'',
          rule_pattern = JStr ''{}''\<rparr>,
         \<lparr>rule_id = JStr ''nil'', rule_languages = {''go''},
          rule_message = None, rule_severity = Some ''INFO'', rule_pattern = JNull\<rparr>,
         \<lparr>rule_id = JStr ''empty'', rule_languages = {''go''},
          rule_message = None, rule_severity = Some ''WARNING'', rule_pattern = JStr []\<rparr>]\<rparr>
   \<and> list_all2
        (\<lambda>p r. \<exists>pd. map_of p ''patternDefinition'' = Some (JObj pd)
                  \<and> rule_pattern r
                      = (case map_of pd ''pattern'' of None \<Rightarrow> JStr ''{}'' | Some v \<Rightarrow> v))
        (contributing [pattern_py_go, pattern_null_body, pattern_empty_body] [''go''])
        [\<lparr>rule_id = JStr ''eval-detected'', rule_languages = {''go''},
          rule_message = Some (JStr ''Detected eval''), rule_severity = Some ''WARNING'',
          rule_pattern = JStr ''{}''\<rparr>,
         \<lparr>rule_id = JStr ''nil'', rule_languages = {''go''},
          rule_message = None, rule_severity = Some ''INFO'', rule_pattern = JNull\<rparr>,
         \<lparr>rule_id = JStr ''empty'', rule_languages = {''go''},
          rule_message = None, rule_severity = Some ''WARNING'', rule_pattern = JStr []\<rparr>]"
proof -
  have e: "create_semgrep_config [pattern_py_go, pattern_null_body, pattern_empty_body]
     [''go'']
     = Inr \<lparr>cfg_rules =
        [\<lparr>rule_id = JStr ''eval-detected'', rule_languages = {''go''},
          rule_message = Some (JStr ''Detected eval''), rule_severity = Some ''WARNING'',
          rule_pattern = JStr ''{}''\<rparr>,
         \<lparr>rule_id = JStr ''nil'', rule_languages = {''go''},
          rule_message = None, rule_severity = Some ''INFO'', rule_pattern = JNull\<rparr>,
         \<lparr>rule_id = JStr ''empty'', rule_languages = {''go''},
          rule_message = None, rule_severity = Some ''WARNING'', rule_pattern = JStr []\<rparr>]\<rparr>"
    by code_simp
  from rule_pattern_placeholder_iff_absent [OF e] e show ?thesis by simp
qed

section \<open>Properties of the Language Extractor\<close>












section \<open>Properties of the Pagination Walker\<close>

lemma fetch_page_Inr_iff:
  "fetch_page serve base w = Inr w1 \<longleftrightarrow>
     (\<exists>p. fst (serve (w_service w) (build_url base (w_cursor w))) = Inr p
          \<and> is_page p
          \<and> w1 = \<lparr>w_service = snd (serve (w_service w) (build_url base (w_cursor w))),
                  w_patterns = w_patterns w @ page_items p,
                  w_cursor = page_cursor p,
                  w_requests = w_requests w @ [build_url base (w_cursor w)]\<rparr>)"
proof (cases "serve (w_service w) (build_url base (w_cursor w))")
  case (Pair response s')
  show ?thesis
  proof (cases response)
    case (Inl e)
    with Pair show ?thesis by (simp add: fetch_page_def)
  next
    case (Inr data)
    with Pair show ?thesis
      by (cases data)
        (auto simp: fetch_page_def is_page_def page_items_def page_cursor_def
          split: sum.splits json.splits option.splits)
  qed
qed

lemma loop_run_fetch_loop:
  "loop_run n serve base w = Some r \<Longrightarrow> fetch_loop serve base w = Some r"
proof (induction n arbitrary: w)
  case 0
  then show ?case by simp
next
  case (Suc n)
  show ?case
  proof (cases "fetch_page serve base w")
    case (Inl e)
    with Suc.prems have "r = Inl e" by simp
    with Inl show ?thesis
      by (subst fetch_loop.simps) simp
  next
    case (Inr w')
    show ?thesis
    proof (cases "truthy (w_cursor w')")
      case True
      with Inr Suc.prems have "loop_run n serve base w' = Some r" by simp
      from Suc.IH [OF this] Inr True show ?thesis
        by (subst fetch_loop.simps) simp
    next
      case False
      with Inr Suc.prems have "r = Inr w'" by simp
      with Inr False show ?thesis
        by (subst fetch_loop.simps) simp
    qed
  qed
qed

lemma fetch_loop_loop_run:
  "fetch_loop serve base w = Some r \<Longrightarrow> \<exists>n. loop_run n serve base w = Some r"
proof (induction rule: fetch_loop.raw_induct [rotated 1, consumes 1])
  case (1 fetch_loop' serve base w r)
  show ?case
  proof (cases "fetch_page serve base w")
    case (Inl e)
    with 1(2) have "r = Inl e" by simp
    with Inl have "loop_run (Suc 0) serve base w = Some r" by simp
    then show ?thesis by blast
  next
    case (Inr w')
    show ?thesis
    proof (cases "truthy (w_cursor w')")
      case True
      with Inr 1(2) have "fetch_loop' serve base w' = Some r" by simp
      from 1(1) [OF this] obtain n where "loop_run n serve base w' = Some r" by blast
      with Inr True have "loop_run (Suc n) serve base w = Some r" by simp
      then show ?thesis by blast
    next
      case False
      with Inr 1(2) have "r = Inr w'" by simp
      with Inr False have "loop_run (Suc 0) serve base w = Some r" by simp
      then show ?thesis by blast
    qed
  qed
qed

lemma fetch_page_page:
  assumes "fst (serve (w_service w) (build_url base (w_cursor w))) = Inr p" "is_page p"
  shows "fetch_page serve base w
           = Inr \<lparr>w_service = snd (serve (w_service w) (build_url base (w_cursor w))),
                  w_patterns = w_patterns w @ page_items p,
                  w_cursor = page_cursor p,
                  w_requests = w_requests w @ [build_url base (w_cursor w)]\<rparr>"
  using assms fetch_page_Inr_iff [of serve base w] by blast

lemma walk_of_Cons:
  "walk_of serve base s c (p # ps) \<longleftrightarrow>
     fst (serve s (build_url base c)) = Inr p \<and> is_page p
     \<and> (if ps = [] then \<not> truthy (page_cursor p)
         else truthy (page_cursor p)
              \<and> walk_of serve base (snd (serve s (build_url base c))) (page_cursor p) ps)"
  by (auto simp: walk_of_def)

lemma loop_run_walk:
  assumes "walk_of serve base (w_service w) (w_cursor w) ps"
  shows "\<exists>w'. loop_run (length ps) serve base w = Some (Inr w')
           \<and> w_patterns w' = w_patterns w @ concat (map page_items ps)
           \<and> w_requests w'
               = w_requests w @ map (build_url base) (w_cursor w # map page_cursor (butlast ps))
           \<and> w_cursor w' = page_cursor (last ps)"
  using assms
proof (induction ps arbitrary: w)
  case Nil
  then show ?case by (simp add: walk_of_def)
next
  case (Cons p ps)
  let ?w1 = "\<lparr>w_service = snd (serve (w_service w) (build_url base (w_cursor w))),
              w_patterns = w_patterns w @ page_items p,
              w_cursor = page_cursor p,
              w_requests = w_requests w @ [build_url base (w_cursor w)]\<rparr>"
  from Cons.prems have p: "fst (serve (w_service w) (build_url base (w_cursor w))) = Inr p"
    "is_page p"
    by (simp_all add: walk_of_Cons)
  note fp = fetch_page_page [where serve = serve and base = base and w = w and p = p, OF p]
  show ?case
  proof (cases "ps = []")
    case True
    with Cons.prems have "\<not> truthy (page_cursor p)" by (simp add: walk_of_Cons)
    with fp True show ?thesis by simp
  next
    case False
    with Cons.prems have t: "truthy (page_cursor p)"
      and "walk_of serve base (w_service ?w1) (w_cursor ?w1) ps"
      by (simp_all add: walk_of_Cons)
    from Cons.IH [OF this(2)] obtain w' where
      "loop_run (length ps) serve base ?w1 = Some (Inr w')"
      "w_patterns w' = w_patterns ?w1 @ concat (map page_items ps)"
      "w_requests w'
         = w_requests ?w1 @ map (build_url base) (w_cursor ?w1 # map page_cursor (butlast ps))"
      "w_cursor w' = page_cursor (last ps)"
      by blast
    with fp t False show ?thesis by simp
  qed
qed

lemma walk_loop_run:
  assumes "loop_run n serve base w = Some (Inr w')"
  shows "\<exists>ps. walk_of serve base (w_service w) (w_cursor w) ps \<and> length ps \<le> n"
  using assms
proof (induction n arbitrary: w)
  case 0
  then show ?case by simp
next
  case (Suc n)
  from Suc.prems obtain w1 where w1: "fetch_page serve base w = Inr w1"
    by (cases "fetch_page serve base w") simp_all
  then obtain p where p: "fst (serve (w_service w) (build_url base (w_cursor w))) = Inr p"
    "is_page p"
    "w1 = \<lparr>w_service = snd (serve (w_service w) (build_url base (w_cursor w))),
            w_patterns = w_patterns w @ page_items p,
            w_cursor = page_cursor p,
            w_requests = w_requests w @ [build_url base (w_cursor w)]\<rparr>"
    using fetch_page_Inr_iff [of serve base w w1] by blast
  show ?case
  proof (cases "truthy (w_cursor w1)")
    case False
    with p have "walk_of serve base (w_service w) (w_cursor w) [p]"
      by (simp add: walk_of_Cons)
    then show ?thesis by (intro exI [of _ "[p]"]) simp
  next
    case True
    with w1 Suc.prems have "loop_run n serve base w1 = Some (Inr w')" by simp
    from Suc.IH [OF this] obtain ps where
      ps: "walk_of serve base (w_service w1) (w_cursor w1) ps" "length ps \<le> n"
      by blast
    then have "ps \<noteq> []" by (simp add: walk_of_def)
    with p True ps have "walk_of serve base (w_service w) (w_cursor w) (p # ps)"
      by (simp add: walk_of_Cons)
    with ps(2) show ?thesis by (intro exI [of _ "p # ps"]) simp
  qed
qed

lemma fetch_loop_walk:
  assumes "walk_of serve base (w_service w) (w_cursor w) ps"
  shows "\<exists>w'. fetch_loop serve base w = Some (Inr w')
           \<and> w_patterns w' = w_patterns w @ concat (map page_items ps)
           \<and> w_requests w'
               = w_requests w @ map (build_url base) (w_cursor w # map page_cursor (butlast ps))
           \<and> w_cursor w' = page_cursor (last ps)"
  using loop_run_walk [OF assms] loop_run_fetch_loop by blast

lemma loop_run_never:
  assumes "\<forall>s r. \<exists>p. fst (serve s r) = Inr p \<and> is_page p \<and> truthy (page_cursor p)"
  shows "loop_run n serve base w = None"
proof (induction n arbitrary: w)
  case 0
  show ?case by simp
next
  case (Suc n)
  from assms obtain p where
    p: "fst (serve (w_service w) (build_url base (w_cursor w))) = Inr p" "is_page p"
    and t: "truthy (page_cursor p)"
    by blast
  from fetch_page_page [where serve = serve and base = base and w = w and p = p, OF p] t Suc.IH
  show ?case by simp
qed

lemma loop_run_no_raise:
  assumes "\<forall>s r. \<exists>p. fst (serve s r) = Inr p \<and> is_page p"
  shows "loop_run n serve base w \<noteq> Some (Inl e)"
proof (induction n arbitrary: w)
  case 0
  show ?case by simp
next
  case (Suc n)
  from assms obtain p where
    p: "fst (serve (w_service w) (build_url base (w_cursor w))) = Inr p" "is_page p"
    by blast
  from fetch_page_page [where serve = serve and base = base and w = w and p = p, OF p] Suc.IH
  show ?case by simp
qed

lemma page_cursor_truthy_iff:
  "truthy (page_cursor body) \<longleftrightarrow>
     (\<exists>kv pg c. body = JObj kv \<and> map_of kv ''pagination'' = Some (JObj pg)
                 \<and> map_of pg ''cursor'' = Some c \<and> truthy c)"
  by (cases body) (auto simp: page_cursor_def dict_get_def split: option.splits json.splits)

lemma build_url_cursors:
  assumes "list_all (\<lambda>c. truthy c) cs"
  shows "map req_cursor (map (build_url base) cs) = map Some cs"
  using assms by (induction cs) (simp_all add: build_url_def)

text \<open>
  C3: when the service answers the walker's requests with the pages \<open>ps\<close>, each but the
  last carrying a cursor and the last carrying none, \<open>get_code_patterns_for_tool\<close> returns
  the items of the pages concatenated in page order; it sends one request per page, the
  first without a cursor parameter and each later one with the cursor of the page
  before, and none after the last page. For three pages with the cursors \<open>c1\<close>, \<open>c2\<close> and
  none, the result is the three \<open>data\<close> lists appended and three requests are sent.
\<close>

theorem get_code_patterns_for_tool_concat:
  "(walk_of serve (tool_request organization provider coding_standard_id tool_uuid) s JNull ps
      \<longrightarrow> (\<exists>w. get_code_patterns_for_tool serve s organization provider coding_standard_id
                  tool_uuid = Some (Inr w)
               \<and> w_patterns w = concat (map page_items ps)
               \<and> length (w_requests w) = length ps
               \<and> map req_cursor (w_requests w)
                   = None # map (\<lambda>p. Some (page_cursor p)) (butlast ps)))
   \<and> (list_all is_page [p1, p2, p3]
        \<and> page_cursor p1 = JStr ''c1'' \<and> page_cursor p2 = JStr ''c2''
        \<and> \<not> truthy (page_cursor p3)
        \<and> served serve (tool_request organization provider coding_standard_id tool_uuid)
             s JNull [p1, p2, p3]
      \<longrightarrow> (\<exists>w. get_code_patterns_for_tool serve s organization provider coding_standard_id
                  tool_uuid = Some (Inr w)
               \<and> w_patterns w = page_items p1 @ page_items p2 @ page_items p3
               \<and> length (w_requests w) = 3
               \<and> map req_cursor (w_requests w)
                   = [None, Some (JStr ''c1''), Some (JStr ''c2'')]))"
proof -
  let ?base = "tool_request organization provider coding_standard_id tool_uuid"
  let ?w0 = "\<lparr>w_service = s, w_patterns = [], w_cursor = JNull, w_requests = []\<rparr>"
  have general: "\<exists>w. get_code_patterns_for_tool serve s organization provider
                        coding_standard_id tool_uuid = Some (Inr w)
               \<and> w_patterns w = concat (map page_items qs)
               \<and> length (w_requests w) = length qs
               \<and> map req_cursor (w_requests w)
                   = None # map (\<lambda>p. Some (page_cursor p)) (butlast qs)"
    if w: "walk_of serve ?base s JNull qs" for qs
  proof -
    from w have "walk_of serve ?base (w_service ?w0) (w_cursor ?w0) qs" by simp
    from fetch_loop_walk [OF this] obtain w' where
      w': "fetch_loop serve ?base ?w0 = Some (Inr w')"
      "w_patterns w' = concat (map page_items qs)"
      "w_requests w' = map (build_url ?base) (JNull # map page_cursor (butlast qs))"
      by auto
    from w have "list_all (\<lambda>c. truthy c) (map page_cursor (butlast qs))" "qs \<noteq> []"
      by (simp_all add: walk_of_def list_all_iff)
    with w'(3) build_url_cursors [of "map page_cursor (butlast qs)" ?base]
    have "map req_cursor (w_requests w') = None # map (\<lambda>p. Some (page_cursor p)) (butlast qs)"
      "length (w_requests w') = length qs"
      by (simp_all add: build_url_def comp_def)
    with w'(1,2) show ?thesis
      by (simp add: get_code_patterns_for_tool_def)
  qed
  have three: "\<exists>w. get_code_patterns_for_tool serve s organization provider coding_standard_id
                  tool_uuid = Some (Inr w)
               \<and> w_patterns w = page_items p1 @ page_items p2 @ page_items p3
               \<and> length (w_requests w) = 3
               \<and> map req_cursor (w_requests w)
                   = [None, Some (JStr ''c1''), Some (JStr ''c2'')]"
    if h: "list_all is_page [p1, p2, p3]"
      "page_cursor p1 = JStr ''c1''" "page_cursor p2 = JStr ''c2''"
      "\<not> truthy (page_cursor p3)"
      "served serve ?base s JNull [p1, p2, p3]"
  proof -
    from h have "walk_of serve ?base s JNull [p1, p2, p3]"
      by (simp add: walk_of_def)
    from general [OF this] h(2,3) show ?thesis by (simp add: numeral_3_eq_3)
  qed
  from general [of ps] three show ?thesis by blast
qed

theorem get_code_patterns_for_tool_concat_witness:
  "walk_of three_pages (tool_request ''acme'' ''gh'' ''42'' ''semgrep'') 0 JNull
     [page1, page2, page3]
   \<and> (\<exists>w. get_code_patterns_for_tool three_pages 0 ''acme'' ''gh'' ''42'' ''semgrep''
            = Some (Inr w)
          \<and> w_patterns w
              = [JObj pattern_on, JObj pattern_off, JObj pattern_bare, JObj pattern_js]
          \<and> length (w_requests w) = 3
          \<and> map req_cursor (w_requests w) = [None, Some (JStr ''c1''), Some (JStr ''c2'')])"
proof -
  have h: "walk_of three_pages (tool_request ''acme'' ''gh'' ''42'' ''semgrep'') 0 JNull
             [page1, page2, page3]"
    by code_simp
  have c: "concat (map page_items [page1, page2, page3])
             = [JObj pattern_on, JObj pattern_off, JObj pattern_bare, JObj pattern_js]"
    by code_simp
  have b: "map (\<lambda>p. Some (page_cursor p)) (butlast [page1, page2, page3])
             = [Some (JStr ''c1''), Some (JStr ''c2'')]"
    by code_simp
  from get_code_patterns_for_tool_concat
    [of three_pages "''acme''" "''gh''" "''42''" "''semgrep''" 0 "[page1, page2, page3]"
      page1 page2 page3, THEN conjunct1, THEN mp, OF h]
  obtain w where "get_code_patterns_for_tool three_pages 0 ''acme'' ''gh'' ''42'' ''semgrep''
            = Some (Inr w)"
    "w_patterns w = concat (map page_items [page1, page2, page3])"
    "length (w_requests w) = length [page1, page2, page3]"
    "map req_cursor (w_requests w)
       = None # map (\<lambda>p. Some (page_cursor p)) (butlast [page1, page2, page3])"
    by (elim exE conjE)
  then have "get_code_patterns_for_tool three_pages 0 ''acme'' ''gh'' ''42'' ''semgrep''
            = Some (Inr w)
          \<and> w_patterns w
              = [JObj pattern_on, JObj pattern_off, JObj pattern_bare, JObj pattern_js]
          \<and> length (w_requests w) = 3
          \<and> map req_cursor (w_requests w) = [None, Some (JStr ''c1''), Some (JStr ''c2'')]"
    unfolding c b by simp
  then have "\<exists>w. get_code_patterns_for_tool three_pages 0 ''acme'' ''gh'' ''42'' ''semgrep''
            = Some (Inr w)
          \<and> w_patterns w
              = [JObj pattern_on, JObj pattern_off, JObj pattern_bare, JObj pattern_js]
          \<and> length (w_requests w) = 3
          \<and> map req_cursor (w_requests w) = [None, Some (JStr ''c1''), Some (JStr ''c2'')]"
    by (intro exI [of _ w])
  with h show ?thesis by (intro conjI)
qed

text \<open>
  C10: the loop returns exactly when the exchange reaches a page whose cursor tests
  false; it then returns right after that page, having sent one request per page and
  none with a cursor that tests false. A page's cursor tests true only when the
  pagination metadata is there with a \<open>cursor\<close> key whose value tests true, so a missing
  cursor, null and the empty string all end the loop, and none of them is ever put into
  a request. Against a service whose every page has a cursor that tests true, the loop
  never returns. A pass that raises ends the function with the exception, which is not
  the loop's exit; against a service that answers every request with a page, the loop
  ends at all exactly when a page's cursor tests false.
\<close>

theorem fetch_loop_returns_iff_falsy_cursor:
  "((\<exists>w'. fetch_loop serve base w = Some (Inr w'))
      \<longleftrightarrow> (\<exists>ps. walk_of serve base (w_service w) (w_cursor w) ps))
   \<and> (walk_of serve base (w_service w) (w_cursor w) ps
        \<longrightarrow> (\<exists>w'. fetch_loop serve base w = Some (Inr w')
                 \<and> w_cursor w' = page_cursor (last ps)
                 \<and> length (w_requests w') = length (w_requests w) + length ps
                 \<and> map req_cursor (drop (Suc (length (w_requests w))) (w_requests w'))
                     = map (\<lambda>p. Some (page_cursor p)) (butlast ps)))
   \<and> (truthy (page_cursor body)
        \<longleftrightarrow> (\<exists>kv pg c. body = JObj kv \<and> map_of kv ''pagination'' = Some (JObj pg)
                       \<and> map_of pg ''cursor'' = Some c \<and> truthy c))
   \<and> \<not> truthy JNull \<and> \<not> truthy (JStr [])
   \<and> req_cursor (build_url base c) = (if truthy c then Some c else None)
   \<and> ((\<forall>s r. \<exists>p. fst (serve s r) = Inr p \<and> is_page p \<and> truthy (page_cursor p))
        \<longrightarrow> fetch_loop serve base w = None)
   \<and> ((\<forall>s r. \<exists>p. fst (serve s r) = Inr p \<and> is_page p)
        \<longrightarrow> (fetch_loop serve base w \<noteq> None
              \<longleftrightarrow> (\<exists>ps. walk_of serve base (w_service w) (w_cursor w) ps)))"
proof -
  have a: "(\<exists>w'. fetch_loop serve base w = Some (Inr w'))
             \<longleftrightarrow> (\<exists>ps. walk_of serve base (w_service w) (w_cursor w) ps)"
  proof
    assume "\<exists>w'. fetch_loop serve base w = Some (Inr w')"
    then obtain w' where "fetch_loop serve base w = Some (Inr w')" ..
    from fetch_loop_loop_run [OF this] obtain n where
      "loop_run n serve base w = Some (Inr w')" ..
    from walk_loop_run [OF this]
    show "\<exists>ps. walk_of serve base (w_service w) (w_cursor w) ps" by blast
  next
    assume "\<exists>ps. walk_of serve base (w_service w) (w_cursor w) ps"
    then obtain qs where "walk_of serve base (w_service w) (w_cursor w) qs" ..
    from fetch_loop_walk [OF this]
    show "\<exists>w'. fetch_loop serve base w = Some (Inr w')" by blast
  qed
  have b: "\<exists>w'. fetch_loop serve base w = Some (Inr w')
                 \<and> w_cursor w' = page_cursor (last ps)
                 \<and> length (w_requests w') = length (w_requests w) + length ps
                 \<and> map req_cursor (drop (Suc (length (w_requests w))) (w_requests w'))
                     = map (\<lambda>p. Some (page_cursor p)) (butlast ps)"
    if wk: "walk_of serve base (w_service w) (w_cursor w) ps"
  proof -
    from fetch_loop_walk [OF wk] obtain w' where
      w': "fetch_loop serve base w = Some (Inr w')"
      "w_requests w'
         = w_requests w @ map (build_url base) (w_cursor w # map page_cursor (butlast ps))"
      "w_cursor w' = page_cursor (last ps)"
      by blast
    from wk have t: "list_all (\<lambda>c. truthy c) (map page_cursor (butlast ps))" and "ps \<noteq> []"
      by (simp_all add: walk_of_def list_all_iff)
    with w'(2) have "length (w_requests w') = length (w_requests w) + length ps"
      by simp
    moreover from w'(2)
    have "drop (Suc (length (w_requests w))) (w_requests w')
            = map (build_url base) (map page_cursor (butlast ps))"
      by simp
    with build_url_cursors [OF t, of base]
    have "map req_cursor (drop (Suc (length (w_requests w))) (w_requests w'))
            = map (\<lambda>p. Some (page_cursor p)) (butlast ps)"
      by (simp add: comp_def)
    ultimately show ?thesis using w'(1,3) by blast
  qed
  have d: "fetch_loop serve base w = None"
    if never: "\<forall>s r. \<exists>p. fst (serve s r) = Inr p \<and> is_page p \<and> truthy (page_cursor p)"
  proof (rule ccontr)
    assume "fetch_loop serve base w \<noteq> None"
    then obtain r where "fetch_loop serve base w = Some r" by blast
    from fetch_loop_loop_run [OF this] obtain n where "loop_run n serve base w = Some r" ..
    with loop_run_never [OF never, of n base w] show False by simp
  qed
  have e: "req_cursor (build_url base c) = (if truthy c then Some c else None)"
    by (simp add: build_url_def)
  have f: "fetch_loop serve base w \<noteq> None
             \<longleftrightarrow> (\<exists>ps. walk_of serve base (w_service w) (w_cursor w) ps)"
    if pages: "\<forall>s r. \<exists>p. fst (serve s r) = Inr p \<and> is_page p"
  proof -
    have "\<exists>w'. fetch_loop serve base w = Some (Inr w')"
      if "fetch_loop serve base w \<noteq> None"
    proof -
      from that obtain r where r: "fetch_loop serve base w = Some r" by blast
      from fetch_loop_loop_run [OF this] obtain n where "loop_run n serve base w = Some r" ..
      with loop_run_no_raise [OF pages, of n base w] obtain w' where "r = Inr w'"
        by (cases r) auto
      with r show ?thesis by blast
    qed
    with a show ?thesis by auto
  qed
  from a b d e f page_cursor_truthy_iff [of body] show ?thesis by simp
qed

theorem fetch_loop_returns_iff_falsy_cursor_witness:
  "(\<exists>w'. fetch_loop (always page_null_cursor) (tool_request ''acme'' ''gh'' ''42'' ''semgrep'')
            \<lparr>w_service = 0, w_patterns = [], w_cursor = JNull, w_requests = []\<rparr> = Some (Inr w')
         \<and> length (w_requests w') = 1)
   \<and> (\<exists>w'. fetch_loop (always page_empty_cursor) (tool_request ''acme'' ''gh'' ''42'' ''semgrep'')
            \<lparr>w_service = 0, w_patterns = [], w_cursor = JNull, w_requests = []\<rparr> = Some (Inr w')
         \<and> length (w_requests w') = 1)
   \<and> (\<exists>w'. fetch_loop (always page_no_pagination) (tool_request ''acme'' ''gh'' ''42'' ''semgrep'')
            \<lparr>w_service = 0, w_patterns = [], w_cursor = JNull, w_requests = []\<rparr> = Some (Inr w')
         \<and> length (w_requests w') = 1)
   \<and> fetch_loop (always page1) (tool_request ''acme'' ''gh'' ''42'' ''semgrep'')
        \<lparr>w_service = 0, w_patterns = [], w_cursor = JNull, w_requests = []\<rparr> = None"
proof -
  let ?base = "tool_request ''acme'' ''gh'' ''42'' ''semgrep''"
  let ?w0 = "\<lparr>w_service = 0::nat, w_patterns = [], w_cursor = JNull, w_requests = []\<rparr>"
  have stop: "\<exists>w'. fetch_loop (always body) ?base ?w0 = Some (Inr w')
                \<and> length (w_requests w') = 1"
    if "is_page body" "\<not> truthy (page_cursor body)" for body
  proof -
    from that have "walk_of (always body) ?base (w_service ?w0) (w_cursor ?w0) [body]"
      by (simp add: walk_of_def always_def)
    from fetch_loop_returns_iff_falsy_cursor
      [of "always body" ?base ?w0 "[body]", THEN conjunct2, THEN conjunct1, THEN mp, OF this]
    show ?thesis by auto
  qed
  have p1: "is_page page_null_cursor" "\<not> truthy (page_cursor page_null_cursor)"
    by code_simp+
  have p2: "is_page page_empty_cursor" "\<not> truthy (page_cursor page_empty_cursor)"
    by code_simp+
  have p3: "is_page page_no_pagination" "\<not> truthy (page_cursor page_no_pagination)"
    by code_simp+
  have p4: "is_page page1" "truthy (page_cursor page1)"
    by code_simp+
  then have "\<forall>s r. \<exists>p. fst (always page1 s r) = Inr p \<and> is_page p \<and> truthy (page_cursor p)"
    by (simp add: always_def)
  with fetch_loop_returns_iff_falsy_cursor [of "always page1" ?base ?w0]
  have "fetch_loop (always page1) ?base ?w0 = None" by blast
  with stop [OF p1] stop [OF p2] stop [OF p3] show ?thesis by (intro conjI)
qed

section \<open>Properties of the Interactive Orchestrator\<close>

text \<open>
  C5 as stated fails: without the credential, \<^verbatim>\<open>main\<close> raises \<open>ValueError\<close> before the
  \<^verbatim>\<open>try\<close>; nothing catches it, nothing is printed, and the exit status is not 0.
\<close>

theorem main_missing_credential_counterexample:
  "main None (failing_steps (RequestException ''503'')) fresh
     = (Propagated (ValueError ''CODACY_API_TOKEN environment variable is not set''), fresh)
   \<and> exit_status (fst (main None (failing_steps (RequestException ''503'')) fresh)) = 1"
  by (simp add: main_def)

text \<open>
  C5, amended: with the credential set, every failure of the run that is an
  \<^verbatim>\<open>Exception\<close> is caught at the top level and reported on the console (one line for a
  request failure, a line and the traceback for any other), \<^verbatim>\<open>main\<close> returns and the exit
  status is 0 whatever the class of the error. Without the credential, \<^verbatim>\<open>main\<close> raises
  \<open>ValueError\<close> before any step has run, and the exception leaves \<^verbatim>\<open>main\<close>.
\<close>

theorem main_catches_after_credential:
  "(token \<noteq> None \<and> token \<noteq> Some [] \<and> steps st = (Inl e, st') \<and> is_exception e
      \<longrightarrow> fst (main token steps st) = Returned
          \<and> exit_status (fst (main token steps st)) = 0
          \<and> world (snd (main token steps st)) = world st'
          \<and> console (snd (main token steps st))
              = console st' @ (if is_request_exception e then [Api_error_line e]
                               else [Error_line e, Traceback_of e]))
   \<and> (token = None \<or> token = Some []
      \<longrightarrow> main token steps st
            = (Propagated (ValueError ''CODACY_API_TOKEN environment variable is not set''), st))"
  by (cases e) (simp_all add: main_def)

theorem main_catches_after_credential_witness:
  "main (Some ''secret'') (failing_steps (RequestException ''503'')) fresh
     = (Returned, \<lparr>console = [Line ''Using provider: GitHub'',
                              Api_error_line (RequestException ''503'')],
                   world = 1\<rparr>)
   \<and> main (Some ''secret'') (failing_steps KeyError) fresh
     = (Returned, \<lparr>console = [Line ''Using provider: GitHub'',
                              Error_line KeyError, Traceback_of KeyError],
                   world = 1\<rparr>)
   \<and> main (Some []) (failing_steps KeyError) fresh
     = (Propagated (ValueError ''CODACY_API_TOKEN environment variable is not set''), fresh)"
proof -
  have s: "failing_steps e fresh
             = (Inl e, \<lparr>console = [Line ''Using provider: GitHub''], world = 1\<rparr>)" for e
    by (simp add: failing_steps_def fresh_def)
  have r: "m = (a, \<lparr>console = c, world = w\<rparr>)"
    if "fst m = a" "world (snd m) = w" "console (snd m) = c"
    for m :: "outcome \<times> nat run_state" and a c w
    using that by (cases m) auto
  from main_catches_after_credential
    [of "Some ''secret''" "failing_steps (RequestException ''503'')" fresh
      "RequestException ''503''" "\<lparr>console = [Line ''Using provider: GitHub''], world = 1\<rparr>"]
    s [of "RequestException ''503''"]
  have 1: "main (Some ''secret'') (failing_steps (RequestException ''503'')) fresh
     = (Returned, \<lparr>console = [Line ''Using provider: GitHub'',
                              Api_error_line (RequestException ''503'')],
                   world = 1\<rparr>)"
    by (intro r) simp_all
  from main_catches_after_credential
    [of "Some ''secret''" "failing_steps KeyError" fresh KeyError
      "\<lparr>console = [Line ''Using provider: GitHub''], world = 1\<rparr>"]
    s [of KeyError]
  have 2: "main (Some ''secret'') (failing_steps KeyError) fresh
     = (Returned, \<lparr>console = [Line ''Using provider: GitHub'',
                              Error_line KeyError, Traceback_of KeyError],
                   world = 1\<rparr>)"
    by (intro r) simp_all
  from main_catches_after_credential [of "Some []" "failing_steps KeyError" fresh]
  have 3: "main (Some []) (failing_steps KeyError) fresh
     = (Propagated (ValueError ''CODACY_API_TOKEN environment variable is not set''), fresh)"
    by simp
  from 1 2 3 show ?thesis by (intro conjI)
qed

end
